theory Spec2Isabelle
  imports Main
begin

unbundle bit_operations_syntax

section \<open>The MySQL SET type of lib/sqlalchemy/dialects/mysql/enumerated.py\<close>

subsection \<open>Python values\<close>

text \<open>
  The hashable scalars the module handles: Python's unbounded \<open>int\<close> and \<open>str\<close>.
  They are the keys and the values of the dictionary \<open>SET._bitmap\<close> (labels map to
  bit values, bit values map back to labels) and the members of a set.
\<close>

datatype scalar = SInt int | SStr string

text \<open>
  What a processor receives and returns: \<open>None\<close>, an \<open>int\<close> or \<open>str\<close>, or a set.
  A set is given by its members in the order in which iterating over it yields them;
  Python does not specify that order, so a statement about a set holds for every list
  of its members, and two sets are compared through \<open>set\<close>.
\<close>

datatype pyval = PNone | PScalar scalar | PSet "scalar list"

datatype error =
    ArgumentError
  | KeyError scalar
  | TypeError
  | ValueError
  | AttributeError

subsection \<open>The configured type\<close>

text \<open>
  The attributes \<open>SET.__init__\<close> assigns. \<open>values'\<close> is \<open>self.values\<close>, the
  vocabulary in its order. \<open>bitmap\<close> is \<open>self._bitmap\<close>, which exists only when
  \<open>retrieve_as_bitwise\<close> is set (\<open>None\<close>: the attribute was never assigned).
  \<open>length'\<close> is the \<open>length\<close> keyword handed to the parent class.
\<close>

record SET =
  retrieve_as_bitwise :: bool
  values' :: "string list"
  bitmap :: "(scalar \<rightharpoonup> scalar) option"
  length' :: nat

text \<open>
  \<open>{value: 2**idx for idx, value in enumerate(self.values)}\<close>, then
  \<open>_bitmap.update((2**idx, value) for idx, value in enumerate(self.values))\<close>:
  a later entry for the same key replaces the earlier one.
\<close>

definition label_bits :: "string list \<Rightarrow> (scalar \<rightharpoonup> scalar)" where
  "label_bits vs =
     fold (\<lambda>(idx, v) m. m(SStr v \<mapsto> SInt (2 ^ idx))) (enumerate 0 vs) Map.empty"

definition bit_labels :: "string list \<Rightarrow> (scalar \<rightharpoonup> scalar) \<Rightarrow> (scalar \<rightharpoonup> scalar)" where
  "bit_labels vs m0 =
     fold (\<lambda>(idx, v) m. m(SInt (2 ^ idx) \<mapsto> SStr v)) (enumerate 0 vs) m0"

text \<open>
  \<open>SET.__init__(*values, retrieve_as_bitwise=...)\<close>. The labels are strings. The
  remaining keywords go unread to \<open>_StringType.__init__\<close>, which is not in this module
  and only stores them; \<open>max([len(v) for v in values] + [0])\<close> is the default of the
  \<open>length\<close> keyword. Bit values are Python integers, which have no width:
  \<open>2**idx\<close> is \<open>2 ^ idx\<close> on \<open>int\<close>.
\<close>

definition SET_init :: "string list \<Rightarrow> bool \<Rightarrow> error + SET" where
  "SET_init vs rab =
     (if \<not> rab \<and> '''' \<in> set vs then Inl ArgumentError
      else Inr \<lparr> retrieve_as_bitwise = rab,
                 values' = vs,
                 bitmap = (if rab then Some (bit_labels vs (label_bits vs)) else None),
                 length' = fold max (map length vs @ [0]) 0 \<rparr>)"

subsection \<open>What a processor uses from outside the module\<close>

text \<open>
  \<open>super().bind_processor(dialect)\<close> and \<open>super().result_processor(dialect, coltype)\<close>
  are the processors of the parent class \<open>String\<close> for the dialect: either \<open>None\<close> or
  a function on the value (charset-level conversion). Python's built-in \<open>int\<close> applied
  to a \<open>str\<close> parses a literal or raises \<open>ValueError\<close>. None of them is code of this
  module, so a processor takes them as parameters.
\<close>

record env =
  string_bind_processor :: "(pyval \<Rightarrow> error + pyval) option"
  string_result_processor :: "(pyval \<Rightarrow> error + pyval) option"
  int_of_str :: "string \<Rightarrow> int option"

text \<open>\<open>if super_convert: return super_convert(value) else: return value\<close>\<close>

definition apply_convert :: "(pyval \<Rightarrow> error + pyval) option \<Rightarrow> pyval \<Rightarrow> error + pyval" where
  "apply_convert super_convert v =
     (case super_convert of None \<Rightarrow> Inr v | Some f \<Rightarrow> f v)"

text \<open>\<open>int(value)\<close> for a value that is not \<open>None\<close>.\<close>

definition py_int :: "env \<Rightarrow> pyval \<Rightarrow> error + int" where
  "py_int e v =
     (case v of
        PScalar (SInt n) \<Rightarrow> Inr n
      | PScalar (SStr s) \<Rightarrow> (case int_of_str e s of None \<Rightarrow> Inl ValueError | Some n \<Rightarrow> Inr n)
      | _ \<Rightarrow> Inl TypeError)"

subsection \<open>Helpers from the standard library and from \<open>sqlalchemy.util\<close>\<close>

text \<open>\<open>d[k]\<close>: the value stored under \<open>k\<close>, or \<open>KeyError(k)\<close>.\<close>

definition getitem :: "(scalar \<rightharpoonup> scalar) \<Rightarrow> scalar \<Rightarrow> error + scalar" where
  "getitem d k = (case d k of None \<Rightarrow> Inl (KeyError k) | Some v \<Rightarrow> Inr v)"

text \<open>
  Modelled from the spec: \<open>util.map_bits\<close> (sqlalchemy/util/langhelpers.py, which is
  not among the sources). The spec, section 4.4: "produce the set of labels whose bit is
  set: for each set bit in the integer, look up the label via the bit\<rightarrow>label inverse
  map. Fails [...] if a set bit has no corresponding label". The loop takes the lowest
  set bit \<open>b = n & (~n + 1)\<close>, calls \<open>fn(b)\<close>, clears the bit with \<open>n ^= b\<close> and goes on
  while \<open>n\<close> is not zero; an exception of \<open>fn\<close> ends it. A negative \<open>n\<close> has infinitely
  many set bits: the loop ends there only if \<open>fn\<close> fails, and \<open>None\<close> is the value of
  a loop that never ends.
\<close>

partial_function (option) map_bits :: "(int \<Rightarrow> error + 'a) \<Rightarrow> int \<Rightarrow> (error + 'a list) option" where
  "map_bits fn n =
     (if n = 0 then Some (Inr [])
      else let b = n AND (NOT n + 1) in
        case fn b of
          Inl e \<Rightarrow> Some (Inl e)
        | Inr y \<Rightarrow> Option.bind (map_bits fn (n XOR b))
              (\<lambda>r. Some (case r of Inl e \<Rightarrow> Inl e | Inr ys \<Rightarrow> Inr (y # ys))))"

declare map_bits.simps [code]

text \<open>\<open>set(iterable)\<close>: a new set of the items, each once.\<close>

definition py_set :: "scalar list \<Rightarrow> pyval" where
  "py_set xs = PSet (remdups xs)"

text \<open>
  \<open>re.findall(r"[^,]+", s)\<close>: the maximal runs of characters other than the comma, from
  left to right. \<open>cur\<close> is the run being read.
\<close>

fun findall_run :: "string \<Rightarrow> string \<Rightarrow> string list" where
  "findall_run cur [] = (if cur = [] then [] else [cur])"
| "findall_run cur (c # cs) =
     (if c = CHR '','' then (if cur = [] then findall_run [] cs else cur # findall_run [] cs)
      else findall_run (cur @ [c]) cs)"

definition findall_not_comma :: "string \<Rightarrow> string list" where
  "findall_not_comma s = findall_run [] s"

text \<open>\<open>sep.join(items)\<close>: every item must be a \<open>str\<close>, else \<open>TypeError\<close>.\<close>

fun strs_of :: "scalar list \<Rightarrow> error + string list" where
  "strs_of [] = Inr []"
| "strs_of (SStr s # vs) = (case strs_of vs of Inl e \<Rightarrow> Inl e | Inr ss \<Rightarrow> Inr (s # ss))"
| "strs_of (SInt n # vs) = Inl TypeError"

fun join :: "string \<Rightarrow> string list \<Rightarrow> string" where
  "join sep [] = []"
| "join sep [x] = x"
| "join sep (x # y # ys) = x @ sep @ join sep (y # ys)"

definition str_join :: "string \<Rightarrow> scalar list \<Rightarrow> error + string" where
  "str_join sep vs = (case strs_of vs of Inl e \<Rightarrow> Inl e | Inr ss \<Rightarrow> Inr (join sep ss))"

subsection \<open>The processors\<close>

text \<open>
  A call of a processor can reach two objects: the type \<open>self\<close> and the argument
  \<open>value\<close>. Each processor returns what the call returns or raises (\<open>Inl\<close>: the
  exception), followed by the two objects as the call leaves them.
\<close>

text \<open>
  The loop of the bitwise bind processor:
  \<open>for v in value: int_value |= self._bitmap[v]\<close>.
\<close>

fun or_bits :: "SET \<Rightarrow> scalar list \<Rightarrow> int \<Rightarrow> error + int" where
  "or_bits self [] int_value = Inr int_value"
| "or_bits self (v # vs) int_value =
     (case bitmap self of
        None \<Rightarrow> Inl AttributeError
      | Some d \<Rightarrow>
          (case getitem d v of
             Inl e \<Rightarrow> Inl e
           | Inr (SInt b) \<Rightarrow> or_bits self vs (int_value OR b)
           | Inr (SStr l) \<Rightarrow> Inl TypeError))"

text \<open>\<open>SET.bind_processor(dialect)(value)\<close>\<close>

definition bind_processor :: "SET \<Rightarrow> env \<Rightarrow> pyval \<Rightarrow> (error + pyval) \<times> SET \<times> pyval" where
  "bind_processor self e value =
     (let super_convert = string_bind_processor e in
      if retrieve_as_bitwise self then
        (case value of
           PNone \<Rightarrow> (Inr PNone, self, value)
         | PScalar x \<Rightarrow> (apply_convert super_convert value, self, value)
         | PSet vs \<Rightarrow>
             (case or_bits self vs 0 of
                Inl err \<Rightarrow> (Inl err, self, value)
              | Inr int_value \<Rightarrow> (Inr (PScalar (SInt int_value)), self, value)))
      else
        (case value of
           PSet vs \<Rightarrow>
             (case str_join '','' vs of
                Inl err \<Rightarrow> (Inl err, self, value)
              | Inr joined \<Rightarrow> (apply_convert super_convert (PScalar (SStr joined)), self, value))
         | _ \<Rightarrow> (apply_convert super_convert value, self, value)))"

text \<open>
  \<open>SET.result_processor(dialect, coltype)(value)\<close>; \<open>coltype\<close> is only handed to the
  parent class. The outer \<open>None\<close> is a call that does not return. In string mode a
  value that is not a \<open>str\<close> is returned as it came, after \<open>value.discard("")\<close>, which
  removes the member from the argument itself.
\<close>

definition result_processor ::
  "SET \<Rightarrow> env \<Rightarrow> pyval \<Rightarrow> ((error + pyval) \<times> SET \<times> pyval) option" where
  "result_processor self e value =
     (if retrieve_as_bitwise self then
        (case value of
           PNone \<Rightarrow> Some (Inr PNone, self, value)
         | _ \<Rightarrow>
             (case py_int e value of
                Inl err \<Rightarrow> Some (Inl err, self, value)
              | Inr n \<Rightarrow>
                  (case bitmap self of
                     None \<Rightarrow> Some (Inl AttributeError, self, value)
                   | Some d \<Rightarrow>
                       Option.bind (map_bits (\<lambda>b. getitem d (SInt b)) n)
                         (\<lambda>r. case r of
                            Inl err \<Rightarrow> Some (Inl err, self, value)
                          | Inr labels \<Rightarrow> Some (Inr (py_set labels), self, value)))))
      else
        (let super_convert = string_result_processor e in
         case value of
           PScalar (SStr s) \<Rightarrow>
             (case apply_convert super_convert value of
                Inl err \<Rightarrow> Some (Inl err, self, value)
              | Inr (PScalar (SStr s')) \<Rightarrow>
                  Some (Inr (py_set (map SStr (findall_not_comma s'))), self, value)
              | Inr other \<Rightarrow> Some (Inl TypeError, self, value))
         | PNone \<Rightarrow> Some (Inr PNone, self, value)
         | PSet vs \<Rightarrow>
             (let value' = PSet (removeAll (SStr '''') vs) in Some (Inr value', self, value'))
         | PScalar (SInt n) \<Rightarrow> Some (Inl AttributeError, self, value)))"

text \<open>What a call returns or raises, without the objects it leaves.\<close>

definition encode :: "SET \<Rightarrow> env \<Rightarrow> pyval \<Rightarrow> error + pyval" where
  "encode self e v = fst (bind_processor self e v)"

definition decode :: "SET \<Rightarrow> env \<Rightarrow> pyval \<Rightarrow> (error + pyval) option" where
  "decode self e v = map_option fst (result_processor self e v)"

subsection \<open>Specification-level functions\<close>

text \<open>
  The bit values of a non-negative integer, lowest first: what \<open>map_bits\<close> hands to
  \<open>fn\<close>, by recursion on the binary digits instead of the loop.
\<close>

function bit_values :: "int \<Rightarrow> int list" where
  "bit_values n =
     (if n \<le> 0 then []
      else (if odd n then [1] else []) @ map ((*) 2) (bit_values (n div 2)))"
  by pat_completeness auto
termination
  by (relation "measure nat") auto

declare bit_values.simps [simp del]

text \<open>Calling \<open>fn\<close> on each item in turn, up to the first exception.\<close>

fun collect :: "('b \<Rightarrow> error + 'a) \<Rightarrow> 'b list \<Rightarrow> error + 'a list" where
  "collect fn [] = Inr []"
| "collect fn (b # bs) =
     (case fn b of
        Inl e \<Rightarrow> Inl e
      | Inr y \<Rightarrow> (case collect fn bs of Inl e \<Rightarrow> Inl e | Inr ys \<Rightarrow> Inr (y # ys)))"

subsection \<open>Configurations used as examples\<close>

text \<open>
  \<open>SET("a", "b", "c", retrieve_as_bitwise=True)\<close>, with
  \<open>_bitmap = {"a": 1, "b": 2, "c": 4, 1: "a", 2: "b", 4: "c"}\<close>.
\<close>

definition abc_bitwise :: SET where
  "abc_bitwise =
     \<lparr> retrieve_as_bitwise = True,
       values' = [''a'', ''b'', ''c''],
       bitmap = Some [SStr ''a'' \<mapsto> SInt 1, SStr ''b'' \<mapsto> SInt 2, SStr ''c'' \<mapsto> SInt 4,
                      SInt 1 \<mapsto> SStr ''a'', SInt 2 \<mapsto> SStr ''b'', SInt 4 \<mapsto> SStr ''c''],
       length' = 1 \<rparr>"

text \<open>\<open>SET("foo", "bar", "baz")\<close>: string mode, no \<open>_bitmap\<close>.\<close>

definition foo_bar_baz :: SET where
  "foo_bar_baz =
     \<lparr> retrieve_as_bitwise = False,
       values' = [''foo'', ''bar'', ''baz''],
       bitmap = None,
       length' = 3 \<rparr>"

text \<open>
  A dialect for which the parent class has no processors (both are \<open>None\<close>), and an
  \<open>int\<close> that reads no string at all.
\<close>

definition plain_env :: env where
  "plain_env =
     \<lparr> string_bind_processor = None,
       string_result_processor = None,
       int_of_str = (\<lambda>s. None) \<rparr>"

text \<open>
  The spec's words for the string decoder (section 4.3): "split on the separator,
  discarding empty fragments". \<open>split_on sep s\<close> is the naive split, Python's
  \<open>s.split(sep)\<close> for a one-character separator: the pieces between the separators,
  empty ones included. \<open>cur\<close> is the piece being read.
\<close>

fun split_run :: "char \<Rightarrow> string \<Rightarrow> string \<Rightarrow> string list" where
  "split_run sep cur [] = [cur]"
| "split_run sep cur (c # cs) =
     (if c = sep then cur # split_run sep [] cs else split_run sep (cur @ [c]) cs)"

definition split_on :: "char \<Rightarrow> string \<Rightarrow> string list" where
  "split_on sep s = split_run sep [] s"

definition spec_fragments :: "string \<Rightarrow> string list" where
  "spec_fragments s = filter (\<lambda>fragment. fragment \<noteq> []) (split_on (CHR '','') s)"

text \<open>
  The contract of the parent class's processors that a round trip through the string
  encoding relies on: the result processor gives back every string the bind processor
  was given.
\<close>

definition charset_inverse :: "env \<Rightarrow> bool" where
  "charset_inverse e \<longleftrightarrow>
     (\<forall>s. \<exists>t. apply_convert (string_bind_processor e) (PScalar (SStr s)) = Inr (PScalar (SStr t)) \<and>
             apply_convert (string_result_processor e) (PScalar (SStr t)) = Inr (PScalar (SStr s)))"

text \<open>
  Sixty-five distinct labels, \<open>x\<close>, \<open>xx\<close>, \<open>xxx\<close>, ...: one more than a 64-bit
  integer has bits (and than MySQL accepts as members of a SET column).
\<close>

definition labels65 :: "string list" where
  "labels65 = map (\<lambda>i. replicate (Suc i) (CHR ''x'')) [0..<65]"

section \<open>Properties\<close>

subsection \<open>The loop of \<open>map_bits\<close> on a non-negative integer\<close>

lemma and_double: "(2 * a) AND (2 * b) = 2 * (a AND b)" for a b :: int
  using push_bit_and [of 1 a b] by (simp add: push_bit_eq_mult mult.commute)

lemma xor_double: "(2 * a) XOR (2 * b) = 2 * (a XOR b)" for a b :: int
  using push_bit_xor [of 1 a b] by (simp add: push_bit_eq_mult mult.commute)

lemma xor_one_odd: "odd n \<Longrightarrow> n XOR 1 = n - 1" for n :: int
  by (simp add: one_xor_eq xor.commute)

lemma lowbit_odd: "odd n \<Longrightarrow> n AND (NOT n + 1) = 1" for n :: int
proof -
  assume n: "odd n"
  have 1: "NOT n + 1 = NOT (n - 1)"
    by (simp add: not_int_def)
  have 2: "n - 1 = n XOR 1"
    using n by (simp add: xor_one_odd)
  show ?thesis
    unfolding 1 2 using n
    by (intro bit_eqI) (auto simp add: bit_and_iff bit_not_iff bit_xor_iff bit_1_iff bit_0)
qed

lemma lowbit_even: "(2 * m) AND (NOT (2 * m) + 1) = 2 * (m AND (NOT m + 1))" for m :: int
proof -
  have "NOT (2 * m) + 1 = 2 * (NOT m + 1)"
    by (simp add: not_int_def)
  then show ?thesis
    by (simp only: and_double)
qed

lemma bit_values_0: "bit_values 0 = []"
  by (simp add: bit_values.simps)

lemma bit_values_double: "0 \<le> m \<Longrightarrow> bit_values (2 * m) = map ((*) 2) (bit_values m)"
  by (cases "m = 0") (simp_all add: bit_values.simps [of "2 * m"] bit_values_0)

lemma bit_values_odd: "0 < n \<Longrightarrow> odd n \<Longrightarrow> bit_values n = 1 # map ((*) 2) (bit_values (n div 2))"
  by (subst bit_values.simps) auto

lemma lowbit_step:
  "0 < n \<Longrightarrow>
     0 \<le> n XOR (n AND (NOT n + 1)) \<and> n XOR (n AND (NOT n + 1)) < n \<and>
     bit_values n = (n AND (NOT n + 1)) # bit_values (n XOR (n AND (NOT n + 1)))"
proof (induction n rule: bit_values.induct)
  case (1 n)
  show ?case
  proof (cases "odd n")
    case True
    then have low: "n AND (NOT n + 1) = 1"
      by (rule lowbit_odd)
    have x: "n XOR 1 = 2 * (n div 2)"
      using True by (simp add: xor_one_odd) presburger
    have "bit_values (2 * (n div 2)) = map ((*) 2) (bit_values (n div 2))"
      using "1.prems" by (intro bit_values_double) simp
    then show ?thesis
      using True "1.prems" by (simp add: low x bit_values_odd) presburger
  next
    case False
    then have "even n" by simp
    then obtain m where m: "n = 2 * m" by (elim evenE)
    with "1.prems" have mpos: "0 < m" by simp
    define l where "l = m AND (NOT m + 1)"
    have IH: "0 \<le> m XOR l" "m XOR l < m" "bit_values m = l # bit_values (m XOR l)"
      using "1.IH" "1.prems" mpos m by (simp_all add: l_def)
    have low: "n AND (NOT n + 1) = 2 * l"
      unfolding m l_def by (rule lowbit_even)
    have x: "n XOR (2 * l) = 2 * (m XOR l)"
      unfolding m by (rule xor_double)
    have "bit_values n = map ((*) 2) (bit_values m)"
      unfolding m using mpos by (intro bit_values_double) simp
    also have "\<dots> = 2 * l # map ((*) 2) (bit_values (m XOR l))"
      by (simp add: IH(3))
    also have "map ((*) 2) (bit_values (m XOR l)) = bit_values (2 * (m XOR l))"
      using IH(1) by (simp only: bit_values_double)
    finally have bv: "bit_values n = 2 * l # bit_values (2 * (m XOR l))" .
    have "0 \<le> 2 * (m XOR l)" "2 * (m XOR l) < n"
      using IH(1,2) m by linarith+
    with bv show ?thesis
      unfolding low x by blast
  qed
qed

lemma map_bits_nonneg:
  "0 \<le> n \<Longrightarrow> map_bits fn n = Some (collect fn (bit_values n))"
proof (induction "nat n" arbitrary: n rule: less_induct)
  case less
  show ?case
  proof (cases "n = 0")
    case True
    then show ?thesis
      by (simp add: map_bits.simps bit_values_0)
  next
    case False
    with less.prems have pos: "0 < n" by simp
    define b where "b = n AND (NOT n + 1)"
    from lowbit_step [OF pos]
    have st: "0 \<le> n XOR b" "n XOR b < n" "bit_values n = b # bit_values (n XOR b)"
      by (simp_all add: b_def)
    have IH: "map_bits fn (n XOR b) = Some (collect fn (bit_values (n XOR b)))"
      using st pos by (intro less.hyps) auto
    show ?thesis
      using False IH st(3)
      by (subst map_bits.simps) (simp add: b_def [symmetric] Let_def split: sum.splits)
  qed
qed

lemma bit_values_iff:
  "0 \<le> n \<Longrightarrow> b \<in> set (bit_values n) \<longleftrightarrow> (\<exists>i. b = 2 ^ i \<and> bit n i)"
proof (induction n arbitrary: b rule: bit_values.induct)
  case (1 n)
  show ?case
  proof (cases "n = 0")
    case True
    then show ?thesis by (simp add: bit_values_0)
  next
    case False
    with "1.prems" have pos: "0 < n" by simp
    have IH: "b' \<in> set (bit_values (n div 2)) \<longleftrightarrow> (\<exists>i. b' = 2 ^ i \<and> bit (n div 2) i)" for b'
      using "1.IH" pos by simp
    have split: "(\<exists>i. b = 2 ^ i \<and> bit n i) \<longleftrightarrow>
        (b = 1 \<and> odd n) \<or> (\<exists>j. b = 2 * 2 ^ j \<and> bit (n div 2) j)"
    proof
      assume "\<exists>i. b = 2 ^ i \<and> bit n i"
      then obtain i where i: "b = 2 ^ i" "bit n i" by blast
      show "(b = 1 \<and> odd n) \<or> (\<exists>j. b = 2 * 2 ^ j \<and> bit (n div 2) j)"
      proof (cases i)
        case 0
        with i show ?thesis by (simp add: bit_0)
      next
        case (Suc j)
        with i show ?thesis by (auto simp add: bit_Suc)
      qed
    next
      assume "(b = 1 \<and> odd n) \<or> (\<exists>j. b = 2 * 2 ^ j \<and> bit (n div 2) j)"
      then show "\<exists>i. b = 2 ^ i \<and> bit n i"
      proof
        assume "b = 1 \<and> odd n"
        then have "b = 2 ^ 0 \<and> bit n 0" by (simp add: bit_0)
        then show ?thesis by blast
      next
        assume "\<exists>j. b = 2 * 2 ^ j \<and> bit (n div 2) j"
        then obtain j where "b = 2 * 2 ^ j" "bit (n div 2) j" by blast
        then have "b = 2 ^ Suc j \<and> bit n (Suc j)" by (simp add: bit_Suc)
        then show ?thesis by blast
      qed
    qed
    have mem: "b \<in> set (bit_values n) \<longleftrightarrow>
        (b = 1 \<and> odd n) \<or> b \<in> (*) 2 ` set (bit_values (n div 2))"
      using pos by (subst bit_values.simps) auto
    have img: "b \<in> (*) 2 ` set (bit_values (n div 2)) \<longleftrightarrow>
        (\<exists>j. b = 2 * 2 ^ j \<and> bit (n div 2) j)"
      using IH by auto
    show ?thesis
      unfolding mem img split ..
  qed
qed

subsection \<open>The dictionary built by the constructor\<close>

lemma label_bits_snoc:
  "label_bits (vs @ [x]) = (label_bits vs)(SStr x \<mapsto> SInt (2 ^ length vs))"
  by (simp add: label_bits_def enumerate_append_eq)

lemma bit_labels_snoc:
  "bit_labels (vs @ [x]) m0 = (bit_labels vs m0)(SInt (2 ^ length vs) \<mapsto> SStr x)"
  by (simp add: bit_labels_def enumerate_append_eq)

lemma label_bits_Nil: "label_bits [] = Map.empty"
  by (simp add: label_bits_def)

lemma bit_labels_Nil: "bit_labels [] m0 = m0"
  by (simp add: bit_labels_def)

lemma label_bits_SInt: "label_bits vs (SInt k) = None"
  by (induction vs rule: rev_induct) (simp_all add: label_bits_Nil label_bits_snoc)

lemma label_bits_absent: "v \<notin> set vs \<Longrightarrow> label_bits vs (SStr v) = None"
  by (induction vs rule: rev_induct) (simp_all add: label_bits_Nil label_bits_snoc)

lemma label_bits_member:
  "v \<in> set vs \<Longrightarrow> \<exists>i<length vs. vs ! i = v \<and> label_bits vs (SStr v) = Some (SInt (2 ^ i))"
proof (induction vs rule: rev_induct)
  case Nil
  then show ?case by simp
next
  case (snoc x xs)
  show ?case
  proof (cases "v = x")
    case True
    have "(xs @ [x]) ! length xs = x"
      by simp
    moreover have "label_bits (xs @ [x]) (SStr x) = Some (SInt (2 ^ length xs))"
      by (simp add: label_bits_snoc)
    moreover have "length xs < length (xs @ [x])" by simp
    ultimately show ?thesis unfolding True by blast
  next
    case False
    with snoc obtain i where i: "i < length xs" "xs ! i = v"
      "label_bits xs (SStr v) = Some (SInt (2 ^ i))"
      by auto
    with False have "(xs @ [x]) ! i = v \<and>
        label_bits (xs @ [x]) (SStr v) = Some (SInt (2 ^ i))"
      by (simp add: label_bits_snoc nth_append)
    moreover from i(1) have "i < length (xs @ [x])" by simp
    ultimately show ?thesis by blast
  qed
qed

lemma label_bits_distinct:
  "distinct vs \<Longrightarrow> i < length vs \<Longrightarrow> label_bits vs (SStr (vs ! i)) = Some (SInt (2 ^ i))"
proof -
  assume d: "distinct vs" and i: "i < length vs"
  then have "vs ! i \<in> set vs" by simp
  from label_bits_member [OF this] obtain j where
    j: "j < length vs" "vs ! j = vs ! i" "label_bits vs (SStr (vs ! i)) = Some (SInt (2 ^ j))"
    by blast
  with d i have "j = i"
    by (simp add: nth_eq_iff_index_eq)
  with j show ?thesis by simp
qed

lemma bit_labels_SStr: "bit_labels vs m0 (SStr v) = m0 (SStr v)"
  by (induction vs rule: rev_induct) (simp_all add: bit_labels_Nil bit_labels_snoc)

lemma bit_labels_position:
  "i < length vs \<Longrightarrow> bit_labels vs m0 (SInt (2 ^ i)) = Some (SStr (vs ! i))"
proof (induction vs rule: rev_induct)
  case Nil
  then show ?case by simp
next
  case (snoc x xs)
  show ?case
  proof (cases "i = length xs")
    case True
    then show ?thesis by (simp add: bit_labels_snoc)
  next
    case False
    with snoc.prems have i: "i < length xs" by simp
    then have "(2::int) ^ i \<noteq> 2 ^ length xs" by simp
    with snoc.IH i show ?thesis
      by (simp add: bit_labels_snoc nth_append)
  qed
qed

lemma bit_labels_other:
  "\<forall>i<length vs. k \<noteq> 2 ^ i \<Longrightarrow> bit_labels vs m0 (SInt k) = m0 (SInt k)"
  by (induction vs rule: rev_induct) (simp_all add: bit_labels_Nil bit_labels_snoc)

lemma SET_init_bitwise:
  "SET_init vs True = Inr self \<longleftrightarrow>
     self = \<lparr> retrieve_as_bitwise = True, values' = vs,
              bitmap = Some (bit_labels vs (label_bits vs)),
              length' = fold max (map length vs @ [0]) 0 \<rparr>"
  by (auto simp add: SET_init_def)

lemma SET_init_abc_bitwise: "SET_init [''a'', ''b'', ''c''] True = Inr abc_bitwise"
  by (simp add: SET_init_def abc_bitwise_def label_bits_def bit_labels_def enumerate_eq_zip
      upt_rec)

lemma SET_init_foo_bar_baz: "SET_init [''foo'', ''bar'', ''baz''] False = Inr foo_bar_baz"
  by (simp add: SET_init_def foo_bar_baz_def)

subsection \<open>Construction\<close>

text \<open>
  C3. Bit assignment: for a vocabulary of distinct labels, construction with
  \<open>retrieve_as_bitwise=True\<close> succeeds, the label at position \<open>i\<close> gets the bit value
  \<open>2 ^ i\<close> and \<open>2 ^ i\<close> maps back to that label; the bit values assigned to the labels
  are exactly \<open>2 ^ 0\<close>, ..., \<open>2 ^ (n - 1)\<close>, and two labels never share one.
\<close>

theorem bit_assignment:
  assumes "distinct vs"
  shows "\<exists>self d. SET_init vs True = Inr self \<and> bitmap self = Some d \<and>
     (\<forall>i<length vs. d (SStr (vs ! i)) = Some (SInt (2 ^ i)) \<and>
                     d (SInt (2 ^ i)) = Some (SStr (vs ! i))) \<and>
     {b. \<exists>v\<in>set vs. d (SStr v) = Some b} = (\<lambda>i. SInt (2 ^ i)) ` {0..<length vs} \<and>
     inj_on (\<lambda>v. d (SStr v)) (set vs)"
proof -
  define d where "d = bit_labels vs (label_bits vs)"
  define self where "self = \<lparr> retrieve_as_bitwise = True, values' = vs, bitmap = Some d,
    length' = fold max (map length vs @ [0]) 0 \<rparr>"
  have init: "SET_init vs True = Inr self"
    by (simp add: SET_init_bitwise self_def d_def)
  have bm: "bitmap self = Some d"
    by (simp add: self_def)
  have str: "d (SStr v) = label_bits vs (SStr v)" for v
    by (simp add: d_def bit_labels_SStr)
  have pos: "d (SStr (vs ! i)) = Some (SInt (2 ^ i)) \<and> d (SInt (2 ^ i)) = Some (SStr (vs ! i))"
    if "i < length vs" for i
    using that assms by (simp add: str label_bits_distinct) (simp add: d_def bit_labels_position)
  have cover: "{b. \<exists>v\<in>set vs. d (SStr v) = Some b} = (\<lambda>i. SInt (2 ^ i)) ` {0..<length vs}"
  proof (intro set_eqI iffI)
    fix b
    assume "b \<in> {b. \<exists>v\<in>set vs. d (SStr v) = Some b}"
    then obtain v where v: "v \<in> set vs" "d (SStr v) = Some b" by blast
    from label_bits_member [OF v(1)] v(2) obtain i where "i < length vs" "b = SInt (2 ^ i)"
      by (auto simp add: str)
    then show "b \<in> (\<lambda>i. SInt (2 ^ i)) ` {0..<length vs}" by simp
  next
    fix b
    assume "b \<in> (\<lambda>i. SInt (2 ^ i)) ` {0..<length vs}"
    then obtain i where i: "i < length vs" "b = SInt (2 ^ i)" by auto
    then have "vs ! i \<in> set vs" "d (SStr (vs ! i)) = Some b"
      using pos [of i] by simp_all
    then show "b \<in> {b. \<exists>v\<in>set vs. d (SStr v) = Some b}" by blast
  qed
  have inj: "inj_on (\<lambda>v. d (SStr v)) (set vs)"
  proof (rule inj_onI)
    fix v w
    assume v: "v \<in> set vs" and w: "w \<in> set vs" and eq: "d (SStr v) = d (SStr w)"
    from label_bits_member [OF v] obtain i where
      i: "vs ! i = v" "d (SStr v) = Some (SInt (2 ^ i))" by (auto simp add: str)
    from label_bits_member [OF w] obtain j where
      j: "vs ! j = w" "d (SStr w) = Some (SInt (2 ^ j))" by (auto simp add: str)
    from eq i(2) j(2) have "(2::int) ^ i = 2 ^ j" by simp
    then have "i = j" by simp
    with i(1) j(1) show "v = w" by simp
  qed
  from init bm pos cover inj show ?thesis by blast
qed

theorem bit_assignment_witness:
  "distinct [''a'', ''b'', ''c''] \<and>
   (\<exists>self d. SET_init [''a'', ''b'', ''c''] True = Inr self \<and> bitmap self = Some d \<and>
     (\<forall>i<length [''a'', ''b'', ''c''].
         d (SStr ([''a'', ''b'', ''c''] ! i)) = Some (SInt (2 ^ i)) \<and>
         d (SInt (2 ^ i)) = Some (SStr ([''a'', ''b'', ''c''] ! i))) \<and>
     {b. \<exists>v\<in>set [''a'', ''b'', ''c'']. d (SStr v) = Some b} =
       (\<lambda>i. SInt (2 ^ i)) ` {0..<length [''a'', ''b'', ''c'']} \<and>
     inj_on (\<lambda>v. d (SStr v)) (set [''a'', ''b'', ''c'']))"
proof -
  have h: "distinct [''a'', ''b'', ''c'']" by simp
  from h bit_assignment [OF h] show ?thesis by (rule conjI)
qed

text \<open>
  C4. Blank-label rule: a vocabulary that contains the empty string is refused with
  \<open>ArgumentError\<close> when \<open>retrieve_as_bitwise\<close> is false and accepted when it is true.
\<close>

theorem blank_label_rule:
  assumes "'''' \<in> set vs"
  shows "SET_init vs False = Inl ArgumentError \<and> (\<exists>self. SET_init vs True = Inr self)"
  using assms by (simp add: SET_init_def)

theorem blank_label_rule_witness:
  "'''' \<in> set [''foo'', '''', ''bar''] \<and>
   SET_init [''foo'', '''', ''bar''] False = Inl ArgumentError \<and>
   (\<exists>self. SET_init [''foo'', '''', ''bar''] True = Inr self)"
proof -
  have h: "'''' \<in> set [''foo'', '''', ''bar'']" by simp
  from h blank_label_rule [OF h] show ?thesis by (rule conjI)
qed

subsection \<open>The bind processor\<close>

text \<open>
  C10. In bitmask mode the bind processor returns \<open>None\<close> for \<open>None\<close>: no exception and
  no integer \<open>0\<close>; the type and the argument stay as they were.
\<close>

theorem bitwise_bind_None:
  assumes "retrieve_as_bitwise self"
  shows "bind_processor self e PNone = (Inr PNone, self, PNone)"
  using assms by (simp add: bind_processor_def)

theorem bitwise_bind_None_witness:
  "retrieve_as_bitwise abc_bitwise \<and>
   bind_processor abc_bitwise plain_env PNone = (Inr PNone, abc_bitwise, PNone)"
proof -
  have h: "retrieve_as_bitwise abc_bitwise" by (simp add: abc_bitwise_def)
  from h bitwise_bind_None [OF h] show ?thesis by (rule conjI)
qed

subsection \<open>Bitmask mode: encoding and decoding\<close>

lemma collect_all_ok:
  "\<forall>b\<in>set bs. \<exists>y. fn b = Inr y \<Longrightarrow>
     \<exists>ys. collect fn bs = Inr ys \<and> set ys = {y. \<exists>b\<in>set bs. fn b = Inr y}"
proof (induction bs)
  case Nil
  then show ?case by simp
next
  case (Cons b bs)
  then obtain y where y: "fn b = Inr y" by auto
  from Cons obtain ys where ys: "collect fn bs = Inr ys"
    "set ys = {y. \<exists>b\<in>set bs. fn b = Inr y}" by auto
  have "collect fn (b # bs) = Inr (y # ys)"
    by (simp add: y ys(1))
  moreover have "set (y # ys) = {y. \<exists>b'\<in>set (b # bs). fn b' = Inr y}"
    using y ys(2) by auto
  ultimately show ?case by blast
qed

lemma collect_fails:
  "b \<in> set bs \<Longrightarrow> fn b = Inl e \<Longrightarrow>
     \<exists>b'\<in>set bs. \<exists>e'. fn b' = Inl e' \<and> collect fn bs = Inl e'"
proof (induction bs)
  case Nil
  then show ?case by simp
next
  case (Cons a bs)
  show ?case
  proof (cases "fn a")
    case (Inl e')
    then show ?thesis by auto
  next
    case (Inr y)
    with Cons.prems have "b \<in> set bs" by auto
    from Cons.IH [OF this Cons.prems(2)] obtain b' e' where
      "b' \<in> set bs" "fn b' = Inl e'" "collect fn bs = Inl e'" by blast
    with Inr show ?thesis by auto
  qed
qed

lemma or_bits_ok:
  assumes "bitmap self = Some d"
    and "\<forall>v\<in>set xs. d v = Some (SInt (2 ^ f v))"
  shows "\<exists>r. or_bits self xs acc = Inr r \<and> (0 \<le> acc \<longrightarrow> 0 \<le> r) \<and>
           (\<forall>i. bit r i \<longleftrightarrow> bit acc i \<or> (\<exists>v\<in>set xs. f v = i))"
  using assms(2)
proof (induction xs arbitrary: acc)
  case Nil
  then show ?case by simp
next
  case (Cons x xs)
  then have x: "d x = Some (SInt (2 ^ f x))" by simp
  from Cons obtain r where r: "or_bits self xs (acc OR 2 ^ f x) = Inr r"
    "0 \<le> acc OR 2 ^ f x \<longrightarrow> 0 \<le> r"
    "\<forall>i. bit r i \<longleftrightarrow> bit (acc OR 2 ^ f x) i \<or> (\<exists>v\<in>set xs. f v = i)"
    by (metis list.set_intros(2))
  have "or_bits self (x # xs) acc = Inr r"
    using assms(1) x r(1) by (simp add: getitem_def)
  moreover have "0 \<le> acc \<longrightarrow> 0 \<le> r"
    using r(2) by simp
  moreover have "\<forall>i. bit r i \<longleftrightarrow> bit acc i \<or> (\<exists>v\<in>set (x # xs). f v = i)"
    using r(3) by (auto simp add: bit_or_iff bit_exp_iff)
  ultimately show ?case by blast
qed

lemma or_bits_fails:
  assumes "bitmap self = Some d"
    and "\<forall>v\<in>set xs. d v = None \<or> (\<exists>b. d v = Some (SInt b))"
    and "x \<in> set xs" and "d x = None"
  shows "\<exists>u\<in>set xs. d u = None \<and> or_bits self xs acc = Inl (KeyError u)"
  using assms(2-)
proof (induction xs arbitrary: acc)
  case Nil
  then show ?case by simp
next
  case (Cons a xs)
  show ?case
  proof (cases "d a")
    case None
    then show ?thesis using assms(1) by (auto simp add: getitem_def)
  next
    case (Some w)
    with Cons.prems obtain b where b: "d a = Some (SInt b)" by auto
    from Some Cons.prems have "x \<in> set xs" by auto
    with Cons.IH [of "acc OR b"] Cons.prems obtain u where
      "u \<in> set xs" "d u = None" "or_bits self xs (acc OR b) = Inl (KeyError u)"
      by auto
    then show ?thesis using assms(1) b by (auto simp add: getitem_def)
  qed
qed

lemma py_set_members: "py_set ys = PSet zs \<Longrightarrow> set zs = set ys"
  by (auto simp add: py_set_def)

lemma bitwise_decode_nonneg:
  assumes "retrieve_as_bitwise self" and "bitmap self = Some d" and "0 \<le> n"
  shows "decode self e (PScalar (SInt n)) =
     Some (case collect (\<lambda>b. getitem d (SInt b)) (bit_values n) of
             Inl err \<Rightarrow> Inl err | Inr labels \<Rightarrow> Inr (py_set labels))"
  using assms
  by (simp add: decode_def result_processor_def py_int_def map_bits_nonneg split: sum.splits)

text \<open>
  C1. Bitmask-mode round trip: for a type constructed with \<open>retrieve_as_bitwise=True\<close>
  and a set of labels that all belong to the vocabulary, the bind processor returns an
  integer, and the result processor applied to that integer returns the same set;
  the empty set is encoded as \<open>0\<close> and \<open>0\<close> is decoded as the empty set.
\<close>

theorem bitmask_round_trip:
  assumes "SET_init vs True = Inr self" and "set ls \<subseteq> set vs"
  shows "(\<exists>n ys. encode self e (PSet (map SStr ls)) = Inr (PScalar (SInt n)) \<and>
            decode self e (PScalar (SInt n)) = Some (Inr (PSet ys)) \<and>
            set ys = SStr ` set ls) \<and>
         encode self e (PSet []) = Inr (PScalar (SInt 0)) \<and>
         decode self e (PScalar (SInt 0)) = Some (Inr (PSet []))"
proof -
  define d where "d = bit_labels vs (label_bits vs)"
  from assms(1) have bw: "retrieve_as_bitwise self" and bm: "bitmap self = Some d"
    by (simp_all add: SET_init_bitwise d_def)
  have "\<forall>v\<in>set ls. \<exists>i. i < length vs \<and> vs ! i = v \<and> d (SStr v) = Some (SInt (2 ^ i))"
    using assms(2) label_bits_member [of _ vs] by (auto simp add: d_def bit_labels_SStr)
  then obtain g where g: "\<forall>v\<in>set ls. g v < length vs \<and> vs ! g v = v \<and>
      d (SStr v) = Some (SInt (2 ^ g v))"
    by (rule bchoice [THEN exE])
  define f where "f x = (case x of SStr v \<Rightarrow> g v | SInt k \<Rightarrow> 0)" for x
  have "\<forall>x\<in>set (map SStr ls). d x = Some (SInt (2 ^ f x))"
    using g by (auto simp add: f_def)
  from or_bits_ok [OF bm this, of 0] obtain n where
    n: "or_bits self (map SStr ls) 0 = Inr n" "0 \<le> n"
    and bits: "\<forall>i. bit n i \<longleftrightarrow> (\<exists>v\<in>set ls. g v = i)"
    by (auto simp add: f_def)
  have enc: "encode self e (PSet (map SStr ls)) = Inr (PScalar (SInt n))"
    using bw n(1) by (simp add: encode_def bind_processor_def)
  let ?get = "\<lambda>b. getitem d (SInt b)"
  have get: "?get (2 ^ g v) = Inr (SStr v)" if "v \<in> set ls" for v
    using g that by (simp add: getitem_def d_def bit_labels_position)
  have "\<forall>b\<in>set (bit_values n). \<exists>y. ?get b = Inr y"
    using bits get by (auto simp add: bit_values_iff [OF n(2)])
  from collect_all_ok [OF this] obtain ys where
    ys: "collect ?get (bit_values n) = Inr ys"
    "set ys = {y. \<exists>b\<in>set (bit_values n). ?get b = Inr y}"
    by blast
  have "set ys = SStr ` set ls"
  proof (intro set_eqI iffI)
    fix y
    assume "y \<in> set ys"
    with ys(2) obtain b where b: "b \<in> set (bit_values n)" "?get b = Inr y" by blast
    with bits obtain v where "v \<in> set ls" "b = 2 ^ g v"
      by (auto simp add: bit_values_iff [OF n(2)])
    with b(2) get [of v] show "y \<in> SStr ` set ls" by auto
  next
    fix y
    assume "y \<in> SStr ` set ls"
    then obtain v where v: "v \<in> set ls" "y = SStr v" by blast
    with bits have "2 ^ g v \<in> set (bit_values n)"
      by (auto simp add: bit_values_iff [OF n(2)])
    with get [OF v(1)] v(2) ys(2) show "y \<in> set ys" by blast
  qed
  then have "decode self e (PScalar (SInt n)) = Some (Inr (PSet (remdups ys))) \<and>
      set (remdups ys) = SStr ` set ls"
    using ys(1) by (simp add: bitwise_decode_nonneg [OF bw bm n(2)] py_set_def)
  with enc have "\<exists>n ys. encode self e (PSet (map SStr ls)) = Inr (PScalar (SInt n)) \<and>
      decode self e (PScalar (SInt n)) = Some (Inr (PSet ys)) \<and> set ys = SStr ` set ls"
    by blast
  moreover have "encode self e (PSet []) = Inr (PScalar (SInt 0))"
    using bw by (simp add: encode_def bind_processor_def)
  moreover have "decode self e (PScalar (SInt 0)) = Some (Inr (PSet []))"
    using bitwise_decode_nonneg [OF bw bm, of 0 e] by (simp add: bit_values_0 py_set_def)
  ultimately show ?thesis by blast
qed

theorem bitmask_round_trip_witness:
  "SET_init [''a'', ''b'', ''c''] True = Inr abc_bitwise \<and>
   set [''a'', ''c''] \<subseteq> set [''a'', ''b'', ''c''] \<and>
   (\<exists>n ys. encode abc_bitwise plain_env (PSet (map SStr [''a'', ''c''])) = Inr (PScalar (SInt n)) \<and>
       decode abc_bitwise plain_env (PScalar (SInt n)) = Some (Inr (PSet ys)) \<and>
       set ys = SStr ` set [''a'', ''c'']) \<and>
   encode abc_bitwise plain_env (PSet []) = Inr (PScalar (SInt 0)) \<and>
   decode abc_bitwise plain_env (PScalar (SInt 0)) = Some (Inr (PSet [])) \<and>
   encode abc_bitwise plain_env (PSet [SStr ''a'', SStr ''c'']) = Inr (PScalar (SInt 5)) \<and>
   decode abc_bitwise plain_env (PScalar (SInt 5)) = Some (Inr (PSet [SStr ''a'', SStr ''c'']))"
proof -
  have h1: "SET_init [''a'', ''b'', ''c''] True = Inr abc_bitwise"
    by (rule SET_init_abc_bitwise)
  have h2: "set [''a'', ''c''] \<subseteq> set [''a'', ''b'', ''c'']" by simp
  have e5: "encode abc_bitwise plain_env (PSet [SStr ''a'', SStr ''c'']) = Inr (PScalar (SInt 5))"
    by (simp add: encode_def bind_processor_def abc_bitwise_def getitem_def)
  have d5: "decode abc_bitwise plain_env (PScalar (SInt 5)) =
      Some (Inr (PSet [SStr ''a'', SStr ''c'']))"
    by (simp add: decode_def result_processor_def abc_bitwise_def py_int_def map_bits.simps
        getitem_def py_set_def)
  from bitmask_round_trip [OF h1 h2, of plain_env] h1 h2 e5 d5 show ?thesis by blast
qed

text \<open>
  C8. Invalid-bit rejection: in bitmask mode, the result processor applied to a
  non-negative integer with a set bit that the dictionary does not map to a label raises
  \<open>KeyError\<close> for such a bit, and the exception reaches the caller. Decoding \<open>8\<close>
  against the three labels \<open>a\<close>, \<open>b\<close>, \<open>c\<close> raises \<open>KeyError(8)\<close>.
\<close>

theorem invalid_bit_rejected:
  assumes "retrieve_as_bitwise self" and "bitmap self = Some d"
    and "0 \<le> n" and "bit n i" and "d (SInt (2 ^ i)) = None"
  shows "\<exists>j. bit n j \<and> d (SInt (2 ^ j)) = None \<and>
           decode self e (PScalar (SInt n)) = Some (Inl (KeyError (SInt (2 ^ j))))"
proof -
  let ?get = "\<lambda>b. getitem d (SInt b)"
  have "2 ^ i \<in> set (bit_values n)"
    using assms(4) by (auto simp add: bit_values_iff [OF assms(3)])
  moreover have "?get (2 ^ i) = Inl (KeyError (SInt (2 ^ i)))"
    using assms(5) by (simp add: getitem_def)
  ultimately obtain b err where b: "b \<in> set (bit_values n)" "?get b = Inl err"
    "collect ?get (bit_values n) = Inl err"
    using collect_fails [of "2 ^ i" "bit_values n" ?get] by blast
  from b(1) obtain j where j: "b = 2 ^ j" "bit n j"
    by (auto simp add: bit_values_iff [OF assms(3)])
  from b(2) have "d (SInt b) = None" "err = KeyError (SInt b)"
    by (auto simp add: getitem_def split: option.splits)
  with j b(3) show ?thesis
    by (auto simp add: bitwise_decode_nonneg [OF assms(1-3)])
qed

theorem invalid_bit_rejected_witness:
  "retrieve_as_bitwise abc_bitwise \<and>
   bitmap abc_bitwise =
     Some [SStr ''a'' \<mapsto> SInt 1, SStr ''b'' \<mapsto> SInt 2, SStr ''c'' \<mapsto> SInt 4,
           SInt 1 \<mapsto> SStr ''a'', SInt 2 \<mapsto> SStr ''b'', SInt 4 \<mapsto> SStr ''c''] \<and>
   (0::int) \<le> 8 \<and> bit (8::int) 3 \<and>
   [SStr ''a'' \<mapsto> SInt 1, SStr ''b'' \<mapsto> SInt 2, SStr ''c'' \<mapsto> SInt 4,
    SInt 1 \<mapsto> SStr ''a'', SInt 2 \<mapsto> SStr ''b'', SInt 4 \<mapsto> SStr ''c''] (SInt (2 ^ 3)) = None \<and>
   decode abc_bitwise plain_env (PScalar (SInt 8)) = Some (Inl (KeyError (SInt 8)))"
proof -
  let ?d = "[SStr ''a'' \<mapsto> SInt 1, SStr ''b'' \<mapsto> SInt 2, SStr ''c'' \<mapsto> SInt 4,
    SInt 1 \<mapsto> SStr ''a'', SInt 2 \<mapsto> SStr ''b'', SInt 4 \<mapsto> SStr ''c'']"
  have h1: "retrieve_as_bitwise abc_bitwise" by (simp add: abc_bitwise_def)
  have h2: "bitmap abc_bitwise = Some ?d" by (simp add: abc_bitwise_def)
  have h3: "(0::int) \<le> 8" by simp
  have h4: "bit (8::int) 3" by simp
  have h5: "?d (SInt (2 ^ 3)) = None" by simp
  from invalid_bit_rejected [OF h1 h2 h3 h4 h5, of plain_env] obtain j where
    j: "bit (8::int) j" "decode abc_bitwise plain_env (PScalar (SInt 8)) =
      Some (Inl (KeyError (SInt (2 ^ j))))"
    by blast
  have "j = 3"
    using j(1) bit_exp_iff [of 3 j, where ?'a = int] by simp
  with j(2) h1 h2 h3 h4 h5 show ?thesis by simp
qed

subsection \<open>String mode: encoding and decoding\<close>

lemma strs_of_labels: "strs_of (map SStr ls) = Inr ls"
  by (induction ls) simp_all

lemma findall_run_no_comma:
  "CHR '','' \<notin> set x \<Longrightarrow> findall_run cur (x @ rest) = findall_run (cur @ x) rest"
  by (induction x arbitrary: cur) auto

lemma findall_run_join:
  "\<forall>x\<in>set ls. x \<noteq> [] \<and> CHR '','' \<notin> set x \<Longrightarrow> findall_run [] (join '','' ls) = ls"
proof (induction "'',''" ls rule: join.induct)
  case 1
  then show ?case by simp
next
  case (2 x)
  then have "findall_run [] (x @ []) = findall_run ([] @ x) []"
    by (intro findall_run_no_comma) simp
  with 2 show ?case by simp
next
  case (3 x y ys)
  then have "findall_run [] (x @ '','' @ join '','' (y # ys)) =
      findall_run ([] @ x) ('','' @ join '','' (y # ys))"
    by (intro findall_run_no_comma) simp
  with 3 show ?case by simp
qed

lemma findall_run_split:
  "findall_run cur s = filter (\<lambda>fragment. fragment \<noteq> []) (split_run (CHR '','') cur s)"
  by (induction s arbitrary: cur) simp_all

lemma findall_not_comma_spec: "findall_not_comma s = spec_fragments s"
  by (simp add: findall_not_comma_def spec_fragments_def split_on_def findall_run_split)

lemma SET_init_string:
  "SET_init vs False = Inr self \<longleftrightarrow>
     '''' \<notin> set vs \<and>
     self = \<lparr> retrieve_as_bitwise = False, values' = vs, bitmap = None,
              length' = fold max (map length vs @ [0]) 0 \<rparr>"
  by (auto simp add: SET_init_def)

lemma string_decode_str:
  assumes "\<not> retrieve_as_bitwise self"
    and "apply_convert (string_result_processor e) (PScalar (SStr s)) = Inr (PScalar (SStr t))"
  shows "decode self e (PScalar (SStr s)) = Some (Inr (py_set (map SStr (findall_not_comma t))))"
  using assms by (simp add: decode_def result_processor_def)

lemma string_encode_labels:
  assumes "\<not> retrieve_as_bitwise self"
  shows "encode self e (PSet (map SStr ls)) =
     apply_convert (string_bind_processor e) (PScalar (SStr (join '','' ls)))"
  using assms by (simp add: encode_def bind_processor_def str_join_def strs_of_labels)

lemma charset_inverse_plain: "charset_inverse plain_env"
  by (simp add: charset_inverse_def plain_env_def apply_convert_def)

text \<open>
  C2. String-mode round trip: for a type constructed with \<open>retrieve_as_bitwise=False\<close>
  over labels without a comma (the constructor has already refused the empty label), and
  for the labels of a set drawn from the vocabulary, listed in any order, the result
  processor applied to what the bind processor returns gives the same set. The parent
  class's processors are outside the module: the round trip needs the result processor
  to give back the string the bind processor was given.
\<close>

theorem string_round_trip:
  assumes "SET_init vs False = Inr self"
    and "\<forall>v\<in>set vs. CHR '','' \<notin> set v"
    and "set ls \<subseteq> set vs"
    and "charset_inverse e"
  shows "\<exists>stored ys. encode self e (PSet (map SStr ls)) = Inr stored \<and>
           decode self e stored = Some (Inr (PSet ys)) \<and> set ys = SStr ` set ls"
proof -
  from assms(1) have mode: "\<not> retrieve_as_bitwise self" and blank: "'''' \<notin> set vs"
    by (auto simp add: SET_init_string)
  from assms(4) obtain t where
    t: "apply_convert (string_bind_processor e) (PScalar (SStr (join '','' ls))) =
          Inr (PScalar (SStr t))"
       "apply_convert (string_result_processor e) (PScalar (SStr t)) =
          Inr (PScalar (SStr (join '','' ls)))"
    unfolding charset_inverse_def by blast
  have "\<forall>x\<in>set ls. x \<noteq> [] \<and> CHR '','' \<notin> set x"
    using assms(2,3) blank by auto
  then have frag: "findall_not_comma (join '','' ls) = ls"
    by (simp add: findall_not_comma_def findall_run_join)
  have "encode self e (PSet (map SStr ls)) = Inr (PScalar (SStr t))"
    by (simp add: string_encode_labels [OF mode] t(1))
  moreover have "decode self e (PScalar (SStr t)) = Some (Inr (PSet (remdups (map SStr ls))))"
    by (simp add: string_decode_str [OF mode t(2)] frag py_set_def)
  moreover have "set (remdups (map SStr ls)) = SStr ` set ls"
    by simp
  ultimately show ?thesis by blast
qed

theorem string_round_trip_witness:
  "SET_init [''foo'', ''bar'', ''baz''] False = Inr foo_bar_baz \<and>
   CHR '','' \<notin> set ''foo'' \<and> CHR '','' \<notin> set ''bar'' \<and> CHR '','' \<notin> set ''baz'' \<and>
   set [''baz'', ''bar''] \<subseteq> set [''foo'', ''bar'', ''baz''] \<and>
   charset_inverse plain_env \<and>
   (\<exists>stored ys. encode foo_bar_baz plain_env (PSet (map SStr [''baz'', ''bar''])) = Inr stored \<and>
       decode foo_bar_baz plain_env stored = Some (Inr (PSet ys)) \<and>
       set ys = SStr ` set [''baz'', ''bar'']) \<and>
   encode foo_bar_baz plain_env (PSet [SStr ''baz'', SStr ''bar'']) =
     Inr (PScalar (SStr ''baz,bar'')) \<and>
   decode foo_bar_baz plain_env (PScalar (SStr ''baz,bar'')) =
     Some (Inr (PSet [SStr ''baz'', SStr ''bar''])) \<and>
   decode foo_bar_baz plain_env (PScalar (SStr ''bar,baz'')) =
     Some (Inr (PSet [SStr ''bar'', SStr ''baz'']))"
proof -
  have h1: "SET_init [''foo'', ''bar'', ''baz''] False = Inr foo_bar_baz"
    by (rule SET_init_foo_bar_baz)
  have h2: "\<forall>v\<in>set [''foo'', ''bar'', ''baz'']. CHR '','' \<notin> set v" by simp
  have h3: "set [''baz'', ''bar''] \<subseteq> set [''foo'', ''bar'', ''baz'']" by simp
  have h4: "charset_inverse plain_env" by (rule charset_inverse_plain)
  have e1: "encode foo_bar_baz plain_env (PSet [SStr ''baz'', SStr ''bar'']) =
      Inr (PScalar (SStr ''baz,bar''))"
    by (simp add: encode_def bind_processor_def foo_bar_baz_def plain_env_def str_join_def
        apply_convert_def)
  have d1: "decode foo_bar_baz plain_env (PScalar (SStr ''baz,bar'')) =
      Some (Inr (PSet [SStr ''baz'', SStr ''bar'']))"
    by (simp add: decode_def result_processor_def foo_bar_baz_def plain_env_def
        apply_convert_def findall_not_comma_def py_set_def)
  have d2: "decode foo_bar_baz plain_env (PScalar (SStr ''bar,baz'')) =
      Some (Inr (PSet [SStr ''bar'', SStr ''baz'']))"
    by (simp add: decode_def result_processor_def foo_bar_baz_def plain_env_def
        apply_convert_def findall_not_comma_def py_set_def)
  from string_round_trip [OF h1 h2 h3 h4] h1 h2 h3 h4 e1 d1 d2 show ?thesis by simp
qed

lemma findall_run_nonempty: "[] \<notin> set (findall_run cur s)"
  by (induction s arbitrary: cur) simp_all

lemma string_decode_set_nonblank:
  assumes "\<not> retrieve_as_bitwise self"
    and "decode self e raw = Some (Inr (PSet ys))"
  shows "SStr '''' \<notin> set ys"
proof (cases raw)
  case PNone
  with assms show ?thesis by (simp add: decode_def result_processor_def)
next
  case (PScalar x)
  show ?thesis
  proof (cases x)
    case (SInt n)
    with PScalar assms show ?thesis by (simp add: decode_def result_processor_def)
  next
    case (SStr s)
    with PScalar assms obtain t where "ys = remdups (map SStr (findall_not_comma t))"
      by (auto simp add: decode_def result_processor_def py_set_def
          split: sum.splits pyval.splits scalar.splits)
    then show ?thesis
      using findall_run_nonempty [of "[]" t] by (auto simp add: findall_not_comma_def)
  qed
next
  case (PSet vs)
  with assms show ?thesis by (auto simp add: decode_def result_processor_def Let_def)
qed

text \<open>
  C7. Driver-quirk tolerance: in string mode the raw string \<open>""\<close> is decoded as the
  empty set (when the parent's result processor, if any, leaves \<open>""\<close> as it is); a
  string is decoded as the set of the non-empty pieces between the commas; and no set
  the result processor returns has the empty string as a member.
\<close>

theorem string_decode_discards_blank:
  assumes "\<not> retrieve_as_bitwise self"
  shows "(apply_convert (string_result_processor e) (PScalar (SStr '''')) = Inr (PScalar (SStr ''''))
            \<longrightarrow> decode self e (PScalar (SStr '''')) = Some (Inr (PSet []))) \<and>
         (apply_convert (string_result_processor e) (PScalar (SStr s)) = Inr (PScalar (SStr t))
            \<longrightarrow> decode self e (PScalar (SStr s)) =
                  Some (Inr (py_set (map SStr (spec_fragments t)))) \<and>
                [] \<notin> set (spec_fragments t)) \<and>
         (decode self e raw = Some (Inr (PSet ys)) \<longrightarrow> SStr '''' \<notin> set ys)"
proof (intro conjI impI)
  assume "apply_convert (string_result_processor e) (PScalar (SStr '''')) = Inr (PScalar (SStr ''''))"
  from string_decode_str [OF assms this]
  show "decode self e (PScalar (SStr '''')) = Some (Inr (PSet []))"
    by (simp add: findall_not_comma_def py_set_def)
next
  assume "apply_convert (string_result_processor e) (PScalar (SStr s)) = Inr (PScalar (SStr t))"
  from string_decode_str [OF assms this]
  show "decode self e (PScalar (SStr s)) = Some (Inr (py_set (map SStr (spec_fragments t))))"
    by (simp add: findall_not_comma_spec)
next
  show "[] \<notin> set (spec_fragments t)"
    by (simp add: spec_fragments_def)
next
  assume "decode self e raw = Some (Inr (PSet ys))"
  with assms show "SStr '''' \<notin> set ys"
    by (rule string_decode_set_nonblank)
qed

theorem string_decode_discards_blank_witness:
  "\<not> retrieve_as_bitwise foo_bar_baz \<and>
   apply_convert (string_result_processor plain_env) (PScalar (SStr '''')) = Inr (PScalar (SStr '''')) \<and>
   decode foo_bar_baz plain_env (PScalar (SStr '''')) = Some (Inr (PSet [])) \<and>
   apply_convert (string_result_processor plain_env) (PScalar (SStr '',foo,,bar,'')) =
     Inr (PScalar (SStr '',foo,,bar,'')) \<and>
   decode foo_bar_baz plain_env (PScalar (SStr '',foo,,bar,'')) =
     Some (Inr (py_set (map SStr (spec_fragments '',foo,,bar,'')))) \<and>
   [] \<notin> set (spec_fragments '',foo,,bar,'') \<and>
   spec_fragments '',foo,,bar,'' = [''foo'', ''bar''] \<and>
   decode foo_bar_baz plain_env (PSet [SStr '''', SStr ''foo'']) = Some (Inr (PSet [SStr ''foo''])) \<and>
   SStr '''' \<notin> set [SStr ''foo'']"
proof -
  have h: "\<not> retrieve_as_bitwise foo_bar_baz" by (simp add: foo_bar_baz_def)
  have c1: "apply_convert (string_result_processor plain_env) (PScalar (SStr '''')) =
      Inr (PScalar (SStr ''''))"
    by (simp add: plain_env_def apply_convert_def)
  have c2: "apply_convert (string_result_processor plain_env) (PScalar (SStr '',foo,,bar,'')) =
      Inr (PScalar (SStr '',foo,,bar,''))"
    by (simp add: plain_env_def apply_convert_def)
  have fr: "spec_fragments '',foo,,bar,'' = [''foo'', ''bar'']"
    by (simp add: spec_fragments_def split_on_def)
  have d3: "decode foo_bar_baz plain_env (PSet [SStr '''', SStr ''foo'']) =
      Some (Inr (PSet [SStr ''foo'']))"
    by (simp add: decode_def result_processor_def foo_bar_baz_def Let_def)
  from string_decode_discards_blank [OF h, of plain_env "'',foo,,bar,''" "'',foo,,bar,''"
      "PSet [SStr '''', SStr ''foo'']" "[SStr ''foo'']"] h c1 c2 fr d3
  show ?thesis by simp
qed

subsection \<open>Members outside the vocabulary\<close>

lemma bitwise_encode_absent:
  assumes "SET_init vs True = Inr self" and "u \<in> set ls" and "u \<notin> set vs"
  shows "\<exists>w\<in>set ls. w \<notin> set vs \<and> encode self e (PSet (map SStr ls)) = Inl (KeyError (SStr w))"
proof -
  define d where "d = bit_labels vs (label_bits vs)"
  from assms(1) have bw: "retrieve_as_bitwise self" and bm: "bitmap self = Some d"
    by (simp_all add: SET_init_bitwise d_def)
  have str: "d (SStr v) = label_bits vs (SStr v)" for v
    by (simp add: d_def bit_labels_SStr)
  have known: "\<forall>x\<in>set (map SStr ls). d x = None \<or> (\<exists>b. d x = Some (SInt b))"
  proof
    fix x
    assume "x \<in> set (map SStr ls)"
    then obtain v where v: "x = SStr v" by auto
    show "d x = None \<or> (\<exists>b. d x = Some (SInt b))"
    proof (cases "v \<in> set vs")
      case True
      from label_bits_member [OF this] show ?thesis by (auto simp add: v str)
    next
      case False
      then show ?thesis by (simp add: v str label_bits_absent)
    qed
  qed
  have "SStr u \<in> set (map SStr ls)" "d (SStr u) = None"
    using assms(2,3) by (simp_all add: str label_bits_absent)
  from or_bits_fails [OF bm known this, of 0] obtain x where
    x: "x \<in> set (map SStr ls)" "d x = None" "or_bits self (map SStr ls) 0 = Inl (KeyError x)"
    by blast
  from x(1) obtain w where w: "w \<in> set ls" "x = SStr w" by auto
  have "w \<notin> set vs"
  proof
    assume "w \<in> set vs"
    from label_bits_member [OF this] x(2) show False by (auto simp add: w(2) str)
  qed
  moreover have "encode self e (PSet (map SStr ls)) = Inl (KeyError (SStr w))"
    using bw x(3) by (simp add: encode_def bind_processor_def w(2))
  ultimately show ?thesis using w(1) by blast
qed

text \<open>
  C5, as amended. In bitmask mode, encoding a set of labels with a member outside the
  vocabulary raises \<open>KeyError\<close> for a member that is outside the vocabulary. In string
  mode the bind processor does not look at the vocabulary: the labels are joined with
  commas and handed to the parent's bind processor.
\<close>

theorem invalid_member_rejected:
  "(SET_init vs True = Inr self \<longrightarrow> u \<in> set ls \<longrightarrow> u \<notin> set vs \<longrightarrow>
      (\<exists>w. w \<in> set ls \<and> w \<notin> set vs \<and>
           encode self e (PSet (map SStr ls)) = Inl (KeyError (SStr w)))) \<and>
   (SET_init vs False = Inr self \<longrightarrow>
      encode self e (PSet (map SStr ls)) =
        apply_convert (string_bind_processor e) (PScalar (SStr (join '','' ls))))"
proof (intro conjI impI)
  assume "SET_init vs True = Inr self" "u \<in> set ls" "u \<notin> set vs"
  from bitwise_encode_absent [OF this]
  show "\<exists>w. w \<in> set ls \<and> w \<notin> set vs \<and>
      encode self e (PSet (map SStr ls)) = Inl (KeyError (SStr w))"
    by blast
next
  assume "SET_init vs False = Inr self"
  then have "\<not> retrieve_as_bitwise self" by (simp add: SET_init_string)
  then show "encode self e (PSet (map SStr ls)) =
      apply_convert (string_bind_processor e) (PScalar (SStr (join '','' ls)))"
    by (rule string_encode_labels)
qed

theorem invalid_member_rejected_witness:
  "SET_init [''a'', ''b'', ''c''] True = Inr abc_bitwise \<and>
   ''unknown'' \<in> set [''a'', ''unknown''] \<and> ''unknown'' \<notin> set [''a'', ''b'', ''c''] \<and>
   encode abc_bitwise plain_env (PSet (map SStr [''a'', ''unknown''])) =
     Inl (KeyError (SStr ''unknown'')) \<and>
   SET_init [''foo'', ''bar'', ''baz''] False = Inr foo_bar_baz \<and>
   encode foo_bar_baz plain_env (PSet (map SStr [''a'', ''unknown''])) =
     apply_convert (string_bind_processor plain_env) (PScalar (SStr (join '','' [''a'', ''unknown''])))"
proof -
  have h1: "SET_init [''a'', ''b'', ''c''] True = Inr abc_bitwise"
    by (rule SET_init_abc_bitwise)
  have h2: "''unknown'' \<in> set [''a'', ''unknown'']" by simp
  have h3: "''unknown'' \<notin> set [''a'', ''b'', ''c'']" by simp
  have h4: "SET_init [''foo'', ''bar'', ''baz''] False = Inr foo_bar_baz"
    by (rule SET_init_foo_bar_baz)
  from invalid_member_rejected [of "[''a'', ''b'', ''c'']" abc_bitwise "''unknown''"
      "[''a'', ''unknown'']" plain_env] h1 h2 h3
  obtain w where w: "w \<in> set [''a'', ''unknown'']" "w \<notin> set [''a'', ''b'', ''c'']"
    "encode abc_bitwise plain_env (PSet (map SStr [''a'', ''unknown''])) =
      Inl (KeyError (SStr w))"
    by blast
  from w(1,2) have "w = ''unknown''" by auto
  with w(3) have k: "encode abc_bitwise plain_env (PSet (map SStr [''a'', ''unknown''])) =
      Inl (KeyError (SStr ''unknown''))" by simp
  from invalid_member_rejected [of "[''foo'', ''bar'', ''baz'']" foo_bar_baz _
      "[''a'', ''unknown'']" plain_env] h4
  have "encode foo_bar_baz plain_env (PSet (map SStr [''a'', ''unknown''])) =
     apply_convert (string_bind_processor plain_env)
       (PScalar (SStr (join '','' [''a'', ''unknown''])))"
    by blast
  with h1 h2 h3 h4 k show ?thesis by blast
qed

text \<open>
  C5 as stated fails in string mode: \<open>SET("foo", "bar", "baz")\<close> encodes the set
  \<open>{"unknown"}\<close> as the string \<open>"unknown"\<close>.
\<close>

theorem string_mode_unchecked_counterexample:
  "SET_init [''foo'', ''bar'', ''baz''] False = Inr foo_bar_baz \<and>
   ''unknown'' \<notin> set [''foo'', ''bar'', ''baz''] \<and>
   encode foo_bar_baz plain_env (PSet [SStr ''unknown'']) = Inr (PScalar (SStr ''unknown''))"
  by (simp add: SET_init_foo_bar_baz encode_def bind_processor_def foo_bar_baz_def
      plain_env_def str_join_def apply_convert_def)

subsection \<open>The loop of \<open>map_bits\<close> on any integer\<close>

lemma lowbit_power:
  "n \<noteq> 0 \<Longrightarrow> \<exists>k. n AND (NOT n + 1) = 2 ^ k \<and> bit n k \<and> (\<forall>j<k. \<not> bit n j)" for n :: int
proof (induction n rule: int_bit_induct)
  case zero
  then show ?case by simp
next
  case minus
  have "(- 1 :: int) AND (NOT (- 1) + 1) = 2 ^ 0 \<and> bit (- 1 :: int) 0 \<and>
      (\<forall>j<0. \<not> bit (- 1 :: int) j)"
    by simp
  then show ?case by blast
next
  case (even m)
  then obtain k where k: "m AND (NOT m + 1) = 2 ^ k" "bit m k" "\<forall>j<k. \<not> bit m j"
    by blast
  have "(m * 2) AND (NOT (m * 2) + 1) = 2 ^ Suc k"
    using lowbit_even [of m] k(1) by (simp add: mult.commute)
  moreover have "bit (m * 2) (Suc k)"
    using k(2) by (simp add: bit_Suc)
  moreover have "\<forall>j<Suc k. \<not> bit (m * 2) j"
  proof (intro allI impI)
    fix j
    assume "j < Suc k"
    then show "\<not> bit (m * 2) j"
      using k(3) by (cases j) (simp_all add: bit_0 bit_Suc)
  qed
  ultimately show ?case by blast
next
  case (odd m)
  have "odd (1 + m * 2)" by simp
  then have "(1 + m * 2) AND (NOT (1 + m * 2) + 1) = 2 ^ 0"
    using lowbit_odd [of "1 + m * 2"] by simp
  moreover have "bit (1 + m * 2) 0"
    by (simp add: bit_0)
  ultimately show ?case by blast
qed

lemma map_bits_returns_aux:
  assumes fails: "\<forall>k\<ge>L. \<exists>err. fn (2 ^ k) = Inl err"
  shows "\<forall>j. j + m < L \<longrightarrow> \<not> bit n j \<Longrightarrow> \<exists>r. map_bits fn n = Some r"
proof (induction m arbitrary: n)
  case 0
  show ?case
  proof (cases "n = 0")
    case True
    then show ?thesis by (simp add: map_bits.simps)
  next
    case False
    from lowbit_power [OF this] obtain k where
      k: "n AND (NOT n + 1) = 2 ^ k" "bit n k" by blast
    with 0 have "L \<le> k" by (metis add.right_neutral not_le)
    with fails obtain err where "fn (2 ^ k) = Inl err" by blast
    with False k(1) show ?thesis
      by (subst map_bits.simps) simp
  qed
next
  case (Suc m)
  show ?case
  proof (cases "n = 0")
    case True
    then show ?thesis by (simp add: map_bits.simps)
  next
    case False
    from lowbit_power [OF this] obtain k where
      k: "n AND (NOT n + 1) = 2 ^ k" "bit n k" "\<forall>j<k. \<not> bit n j" by blast
    show ?thesis
    proof (cases "fn (2 ^ k)")
      case (Inl err)
      with False k(1) show ?thesis
        by (subst map_bits.simps) simp
    next
      case (Inr y)
      from Suc.prems k(2) have low: "L \<le> k + Suc m"
        by (metis not_le)
      have "\<forall>j. j + m < L \<longrightarrow> \<not> bit (n XOR 2 ^ k) j"
      proof (intro allI impI)
        fix j
        assume j: "j + m < L"
        show "\<not> bit (n XOR 2 ^ k) j"
        proof (cases "j = k")
          case True
          with k(2) show ?thesis by (simp add: bit_xor_iff bit_exp_iff)
        next
          case False
          with j low have "j < k" by simp
          with k(3) False show ?thesis by (simp add: bit_xor_iff bit_exp_iff)
        qed
      qed
      from Suc.IH [OF this] obtain r where "map_bits fn (n XOR 2 ^ k) = Some r"
        by blast
      with False k(1) Inr show ?thesis
        by (subst map_bits.simps) simp
    qed
  qed
qed

lemma map_bits_returns:
  "\<forall>k\<ge>L. \<exists>err. fn (2 ^ k) = Inl err \<Longrightarrow> \<exists>r. map_bits fn n = Some r"
  using map_bits_returns_aux [of L fn L n] by simp

lemma result_processor_returns:
  assumes "SET_init vs rab = Inr self"
  shows "\<exists>out. result_processor self e v = Some out"
proof (cases rab)
  case False
  with assms have "\<not> retrieve_as_bitwise self"
    by (simp add: SET_init_string)
  then show ?thesis
    by (simp add: result_processor_def Let_def split: pyval.splits scalar.splits sum.splits)
next
  case True
  define d where "d = bit_labels vs (label_bits vs)"
  from assms True have bw: "retrieve_as_bitwise self" and bm: "bitmap self = Some d"
    by (simp_all add: SET_init_bitwise d_def)
  have "\<forall>k\<ge>length vs. \<exists>err. getitem d (SInt (2 ^ k)) = Inl err"
  proof (intro allI impI)
    fix k
    assume "length vs \<le> k"
    then have "\<forall>i<length vs. (2::int) ^ k \<noteq> 2 ^ i" by simp
    then have "d (SInt (2 ^ k)) = None"
      by (simp add: d_def bit_labels_other label_bits_SInt)
    then show "\<exists>err. getitem d (SInt (2 ^ k)) = Inl err"
      by (simp add: getitem_def)
  qed
  then have "\<exists>r. map_bits (\<lambda>b. getitem d (SInt b)) n = Some r" for n
    by (rule map_bits_returns)
  note ret = this
  show ?thesis
  proof (cases "v = PNone")
    case True
    with bw show ?thesis by (simp add: result_processor_def)
  next
    case False
    show ?thesis
    proof (cases "py_int e v")
      case (Inl err)
      with bw False show ?thesis
        by (auto simp add: result_processor_def split: pyval.splits)
    next
      case (Inr n)
      from ret obtain r where "map_bits (\<lambda>b. getitem d (SInt b)) n = Some r" by blast
      with bw bm False Inr show ?thesis
        by (auto simp add: result_processor_def split: pyval.splits sum.splits)
    qed
  qed
qed

subsection \<open>No limit on the length of the vocabulary\<close>

lemma SET_init_fails_iff:
  "(\<exists>err. SET_init vs rab = Inl err) \<longleftrightarrow> \<not> rab \<and> '''' \<in> set vs"
  by (simp add: SET_init_def)

lemma SET_init_bitwise_positions:
  "\<exists>self d. SET_init vs True = Inr self \<and> bitmap self = Some d \<and>
     (\<forall>i<length vs. d (SInt (2 ^ i)) = Some (SStr (vs ! i)))"
proof -
  define d where "d = bit_labels vs (label_bits vs)"
  define self where "self = \<lparr> retrieve_as_bitwise = True, values' = vs, bitmap = Some d,
    length' = fold max (map length vs @ [0]) 0 \<rparr>"
  have "SET_init vs True = Inr self"
    by (simp add: SET_init_bitwise self_def d_def)
  moreover have "bitmap self = Some d"
    by (simp add: self_def)
  moreover have "\<forall>i<length vs. d (SInt (2 ^ i)) = Some (SStr (vs ! i))"
    by (simp add: d_def bit_labels_position)
  ultimately show ?thesis by blast
qed

lemma length_labels65: "length labels65 = 65"
  by (simp add: labels65_def)

lemma distinct_labels65: "distinct labels65"
proof -
  have "inj_on (\<lambda>i. replicate (Suc i) (CHR ''x'')) (set [0..<65])"
    by (rule inj_onI) (auto dest: arg_cong [where f = length])
  then show ?thesis
    by (simp add: labels65_def distinct_map)
qed

text \<open>
  C6, as amended. The constructor has no width limit: with \<open>retrieve_as_bitwise=True\<close>
  every vocabulary, however long, is accepted, and position \<open>i\<close> gets the bit value
  \<open>2 ^ i\<close> as an unbounded integer. The only failure of the constructor is the
  blank-label rule.
\<close>

theorem no_width_limit:
  "(\<exists>self d. SET_init vs True = Inr self \<and> bitmap self = Some d \<and>
      (\<forall>i<length vs. d (SInt (2 ^ i)) = Some (SStr (vs ! i)))) \<and>
   ((\<exists>err. SET_init vs rab = Inl err) \<longleftrightarrow> \<not> rab \<and> '''' \<in> set vs)"
  using SET_init_bitwise_positions [of vs] SET_init_fails_iff [of vs rab] by (rule conjI)

theorem no_width_limit_witness:
  "(\<exists>self d. SET_init labels65 True = Inr self \<and> bitmap self = Some d \<and>
      (\<forall>i<length labels65. d (SInt (2 ^ i)) = Some (SStr (labels65 ! i)))) \<and>
   ((\<exists>err. SET_init labels65 True = Inl err) \<longleftrightarrow> \<not> True \<and> '''' \<in> set labels65)"
  by (rule no_width_limit)

text \<open>
  C6 as stated fails whatever width of at most 64 bits is meant: sixty-five distinct
  labels are accepted, and the last one gets the bit value \<open>2 ^ 64\<close>.
\<close>

theorem width_limit_counterexample:
  "length labels65 = 65 \<and> distinct labels65 \<and>
   (case SET_init labels65 True of
      Inl err \<Rightarrow> False
    | Inr self \<Rightarrow>
        (case bitmap self of
           None \<Rightarrow> False
         | Some d \<Rightarrow> d (SStr (labels65 ! 64)) = Some (SInt 18446744073709551616) \<and>
                     d (SInt 18446744073709551616) = Some (SStr (labels65 ! 64))))"
proof -
  define d where "d = bit_labels labels65 (label_bits labels65)"
  define self where "self = \<lparr> retrieve_as_bitwise = True, values' = labels65, bitmap = Some d,
    length' = fold max (map length labels65 @ [0]) 0 \<rparr>"
  have init: "SET_init labels65 True = Inr self"
    by (simp add: SET_init_bitwise self_def d_def)
  have bm: "bitmap self = Some d"
    by (simp add: self_def)
  have i: "64 < length labels65"
    by (simp add: length_labels65)
  have "d (SStr (labels65 ! 64)) = Some (SInt (2 ^ 64))"
    using label_bits_distinct [OF distinct_labels65 i] by (simp add: d_def bit_labels_SStr)
  moreover have "d (SInt (2 ^ 64)) = Some (SStr (labels65 ! 64))"
    using bit_labels_position [OF i] by (simp add: d_def)
  ultimately show ?thesis
    by (simp add: init bm length_labels65 distinct_labels65)
qed

subsection \<open>What a call changes\<close>

lemma bind_processor_frame: "snd (bind_processor self e v) = (self, v)"
  by (simp add: bind_processor_def Let_def split: pyval.splits sum.splits)

lemma result_processor_frame:
  assumes "result_processor self e v = Some (r, self', v')"
  shows "self' = self \<and>
     (if \<not> retrieve_as_bitwise self \<and> (\<exists>xs. v = PSet xs \<and> SStr '''' \<in> set xs)
      then \<exists>xs. v = PSet xs \<and> v' = PSet (removeAll (SStr '''') xs)
      else v' = v)"
proof (cases "retrieve_as_bitwise self")
  case True
  with assms show ?thesis
    by (auto simp add: result_processor_def Let_def
        split: pyval.splits sum.splits option.splits Option.bind_splits)
next
  case False
  with assms show ?thesis
    by (auto simp add: result_processor_def Let_def
        split: pyval.splits scalar.splits sum.splits)
qed

text \<open>
  C9, as amended. A call of the bind processor leaves the type and its argument as they
  were, in both modes. A call of the result processor on a constructed type returns or
  raises (it never runs forever), leaves the type as it was, and leaves its argument as
  it was except in one case: in string mode, an argument that is a set with the member
  \<open>""\<close> loses that member (\<open>value.discard("")\<close> works on the argument itself).
\<close>

theorem processors_frame:
  "snd (bind_processor self e v) = (self, v) \<and>
   (SET_init vs rab = Inr self \<longrightarrow> (\<exists>out. result_processor self e v = Some out)) \<and>
   (result_processor self e v = Some (r, self', v') \<longrightarrow>
      self' = self \<and>
      (if \<not> retrieve_as_bitwise self \<and> (\<exists>xs. v = PSet xs \<and> SStr '''' \<in> set xs)
       then \<exists>xs. v = PSet xs \<and> v' = PSet (removeAll (SStr '''') xs)
       else v' = v))"
  using bind_processor_frame [of self e v] result_processor_returns [of vs rab self e v]
    result_processor_frame [of self e v r self' v']
  by blast

theorem processors_frame_witness:
  "SET_init [''foo'', ''bar'', ''baz''] False = Inr foo_bar_baz \<and>
   result_processor foo_bar_baz plain_env (PSet [SStr '''', SStr ''foo'']) =
     Some (Inr (PSet [SStr ''foo'']), foo_bar_baz, PSet [SStr ''foo'']) \<and>
   snd (bind_processor foo_bar_baz plain_env (PSet [SStr '''', SStr ''foo''])) =
     (foo_bar_baz, PSet [SStr '''', SStr ''foo'']) \<and>
   (\<exists>out. result_processor foo_bar_baz plain_env (PSet [SStr '''', SStr ''foo'']) = Some out) \<and>
   (\<exists>xs. PSet [SStr '''', SStr ''foo''] = PSet xs \<and>
         PSet [SStr ''foo''] = PSet (removeAll (SStr '''') xs))"
proof -
  have h1: "SET_init [''foo'', ''bar'', ''baz''] False = Inr foo_bar_baz"
    by (rule SET_init_foo_bar_baz)
  have h2: "result_processor foo_bar_baz plain_env (PSet [SStr '''', SStr ''foo'']) =
      Some (Inr (PSet [SStr ''foo'']), foo_bar_baz, PSet [SStr ''foo''])"
    by (simp add: result_processor_def foo_bar_baz_def Let_def)
  have h3: "\<not> retrieve_as_bitwise foo_bar_baz \<and>
      (\<exists>xs. PSet [SStr '''', SStr ''foo''] = PSet xs \<and> SStr '''' \<in> set xs)"
    by (simp add: foo_bar_baz_def)
  from processors_frame [of foo_bar_baz plain_env "PSet [SStr '''', SStr ''foo'']"
      "[''foo'', ''bar'', ''baz'']" False "Inr (PSet [SStr ''foo''])" foo_bar_baz
      "PSet [SStr ''foo'']"]
  have "snd (bind_processor foo_bar_baz plain_env (PSet [SStr '''', SStr ''foo''])) =
      (foo_bar_baz, PSet [SStr '''', SStr ''foo'']) \<and>
    (\<exists>out. result_processor foo_bar_baz plain_env (PSet [SStr '''', SStr ''foo'']) = Some out) \<and>
    (\<exists>xs. PSet [SStr '''', SStr ''foo''] = PSet xs \<and>
          PSet [SStr ''foo''] = PSet (removeAll (SStr '''') xs))"
    using h1 h2 h3 by (simp only: if_True simp_thms)
  with h1 h2 show ?thesis by (intro conjI) blast+
qed

text \<open>
  C9 as stated fails: in string mode the result processor, given the set \<open>{""}\<close> (what
  a driver's naive split makes of an empty column), empties that very set.
\<close>

theorem discard_mutates_argument_counterexample:
  "result_processor foo_bar_baz plain_env (PSet [SStr '''']) =
     Some (Inr (PSet []), foo_bar_baz, PSet []) \<and>
   PSet [] \<noteq> PSet [SStr '''']"
  by (simp add: result_processor_def foo_bar_baz_def Let_def)

end
